theory Spec2Isabelle
  imports Main
begin

section \<open>Text, bytes and integers of the interpreter\<close>

text \<open>
  The build server double \<^verbatim>\<open>server.py\<close> reads text from standard input and writes bytes
  to standard output. A Python \<^verbatim>\<open>str\<close> is a sequence of code points, so text is a list of
  natural numbers; \<^verbatim>\<open>len\<close> counts code points. Bytes are \<^typ>\<open>char\<close>, so a byte string
  is a \<^typ>\<open>string\<close>.
\<close>

type_synonym ustring = "nat list"

definition U :: "string \<Rightarrow> ustring" where
  "U s = map of_char s"

definition startswith :: "ustring \<Rightarrow> ustring \<Rightarrow> bool" where
  "startswith s p \<longleftrightarrow> take (length p) s = p"

definition is_digit :: "nat \<Rightarrow> bool" where
  "is_digit c \<longleftrightarrow> 48 \<le> c \<and> c \<le> 57"

text \<open>\<^verbatim>\<open>str(n)\<close> of a non-negative integer: its decimal digits, most significant first.\<close>

fun digits :: "nat \<Rightarrow> nat list" where
  "digits n = (if n < 10 then [n] else digits (n div 10) @ [n mod 10])"

declare digits.simps [simp del]

definition str_nat :: "nat \<Rightarrow> ustring" where
  "str_nat n = map (\<lambda>d. 48 + d) (digits n)"

definition str_int :: "int \<Rightarrow> ustring" where
  "str_int i = (if i < 0 then 45 # str_nat (nat (- i)) else str_nat (nat i))"

subsection \<open>UTF-8\<close>

text \<open>
  \<^verbatim>\<open>str.encode('utf-8')\<close>: one to four bytes per code point. A surrogate
  (\<^verbatim>\<open>U+D800\<close> to \<^verbatim>\<open>U+DFFF\<close>) cannot be encoded: Python raises
  \<^verbatim>\<open>UnicodeEncodeError\<close>, here \<open>None\<close>. Numbers from \<^verbatim>\<open>0x110000\<close> on are no code
  points; no Python string holds one.
\<close>

definition is_high :: "nat \<Rightarrow> bool" where
  "is_high c \<longleftrightarrow> 0xD800 \<le> c \<and> c \<le> 0xDBFF"

definition is_low :: "nat \<Rightarrow> bool" where
  "is_low c \<longleftrightarrow> 0xDC00 \<le> c \<and> c \<le> 0xDFFF"

definition utf8_char :: "nat \<Rightarrow> string option" where
  "utf8_char c =
     (if c < 0x80 then Some [char_of c]
      else if c < 0x800 then Some [char_of (0xC0 + c div 64), char_of (0x80 + c mod 64)]
      else if is_high c \<or> is_low c then None
      else if c < 0x10000 then
        Some [char_of (0xE0 + c div 4096), char_of (0x80 + c div 64 mod 64),
              char_of (0x80 + c mod 64)]
      else if c < 0x110000 then
        Some [char_of (0xF0 + c div 262144), char_of (0x80 + c div 4096 mod 64),
              char_of (0x80 + c div 64 mod 64), char_of (0x80 + c mod 64)]
      else None)"

fun utf8_encode :: "ustring \<Rightarrow> string option" where
  "utf8_encode [] = Some []"
| "utf8_encode (c # cs) =
     (case utf8_char c of
        None \<Rightarrow> None
      | Some bs \<Rightarrow> (case utf8_encode cs of None \<Rightarrow> None | Some rest \<Rightarrow> Some (bs @ rest)))"


section \<open>JSON values\<close>

text \<open>
  The values \<^verbatim>\<open>json.loads\<close> returns. A dict is an association list in insertion order
  with distinct keys; its keys are strings. A float is kept as the literal it was read
  from: the program never computes with one, it only copies it into a response.
\<close>

datatype json =
    JNull
  | JBool bool
  | JInt int
  | JFloat ustring
  | JStr ustring
  | JArr "json list"
  | JObj "(ustring \<times> json) list"

text \<open>
  What the interpreter computes from tables and algorithms of its own, taken as parameters:
  \<^item> \<open>uni_space\<close>, \<open>uni_decimal\<close>: the Unicode tables \<^verbatim>\<open>int()\<close> consults for a code
    point from 127 on (is it white space; its value as a decimal digit);
  \<^item> \<open>float_repr l\<close>: the text \<^verbatim>\<open>json.dumps\<close> prints for the float that
    \<^verbatim>\<open>json.loads\<close> makes of the literal \<open>l\<close>;
  \<^item> \<open>str_other v\<close>: \<^verbatim>\<open>str(v)\<close> for a float, a list or a dict.
\<close>

record pyenv =
  uni_space :: "nat \<Rightarrow> bool"
  uni_decimal :: "nat \<Rightarrow> nat option"
  float_repr :: "ustring \<Rightarrow> ustring"
  str_other :: "json \<Rightarrow> ustring"


subsection \<open>\<^verbatim>\<open>json.dumps\<close>\<close>

text \<open>
  With the default arguments: separators \<^verbatim>\<open>", "\<close> and \<^verbatim>\<open>": "\<close>, and
  \<^verbatim>\<open>ensure_ascii\<close>, so every character outside printable ASCII is written as an escape
  (one beyond \<^verbatim>\<open>U+FFFF\<close> as a surrogate pair).
\<close>

definition hex_digit :: "nat \<Rightarrow> nat" where
  "hex_digit d = (if d < 10 then 48 + d else 87 + d)"

definition hex4 :: "nat \<Rightarrow> ustring" where
  "hex4 n = [hex_digit (n div 4096 mod 16), hex_digit (n div 256 mod 16),
             hex_digit (n div 16 mod 16), hex_digit (n mod 16)]"

definition escape_char :: "nat \<Rightarrow> ustring" where
  "escape_char c =
     (if c = 0x22 then [0x5C, 0x22]
      else if c = 0x5C then [0x5C, 0x5C]
      else if c = 0x0A then [0x5C, 0x6E]
      else if c = 0x0D then [0x5C, 0x72]
      else if c = 0x09 then [0x5C, 0x74]
      else if c = 0x0C then [0x5C, 0x66]
      else if c = 0x08 then [0x5C, 0x62]
      else if 0x20 \<le> c \<and> c \<le> 0x7E then [c]
      else if c < 0x10000 then [0x5C, 0x75] @ hex4 c
      else (let v = c - 0x10000 in
            [0x5C, 0x75] @ hex4 (0xD800 + v div 1024 mod 1024) @
            [0x5C, 0x75] @ hex4 (0xDC00 + v mod 1024)))"

definition dumps_str :: "ustring \<Rightarrow> ustring" where
  "dumps_str s = [0x22] @ concat (map escape_char s) @ [0x22]"

fun join :: "ustring \<Rightarrow> ustring list \<Rightarrow> ustring" where
  "join sep [] = []"
| "join sep [x] = x"
| "join sep (x # y # ys) = x @ sep @ join sep (y # ys)"

fun dumps :: "pyenv \<Rightarrow> json \<Rightarrow> ustring" where
  "dumps env JNull = U ''null''"
| "dumps env (JBool b) = (if b then U ''true'' else U ''false'')"
| "dumps env (JInt i) = str_int i"
| "dumps env (JFloat l) = float_repr env l"
| "dumps env (JStr s) = dumps_str s"
| "dumps env (JArr xs) =
     (if xs = [] then U ''[]''
      else U ''['' @ join (U '', '') (map (dumps env) xs) @ U '']'')"
| "dumps env (JObj kvs) =
     (if kvs = [] then U ''{}''
      else U ''{'' @ join (U '', '') (map (\<lambda>(k, v). dumps_str k @ U '': '' @ dumps env v) kvs) @ U ''}'')"

subsection \<open>\<^verbatim>\<open>json.loads\<close>\<close>

text \<open>
  The scanner of CPython's \<^verbatim>\<open>_json\<close> module, in strict mode. \<open>None\<close> is
  \<^verbatim>\<open>JSONDecodeError\<close>. Every function returns the value read and the text after it.
\<close>

definition is_ws :: "nat \<Rightarrow> bool" where
  "is_ws c \<longleftrightarrow> c = 0x20 \<or> c = 0x09 \<or> c = 0x0A \<or> c = 0x0D"

definition skip_ws :: "ustring \<Rightarrow> ustring" where
  "skip_ws s = dropWhile is_ws s"

definition hexval :: "nat \<Rightarrow> nat option" where
  "hexval c =
     (if 0x30 \<le> c \<and> c \<le> 0x39 then Some (c - 0x30)
      else if 0x61 \<le> c \<and> c \<le> 0x66 then Some (c - 0x57)
      else if 0x41 \<le> c \<and> c \<le> 0x46 then Some (c - 0x37)
      else None)"

definition unhex4 :: "ustring \<Rightarrow> (nat \<times> ustring) option" where
  "unhex4 s =
     (if length s < 4 then None
      else (case hexval (s ! 0) of None \<Rightarrow> None | Some w \<Rightarrow>
           (case hexval (s ! 1) of None \<Rightarrow> None | Some x \<Rightarrow>
           (case hexval (s ! 2) of None \<Rightarrow> None | Some y \<Rightarrow>
           (case hexval (s ! 3) of None \<Rightarrow> None | Some z \<Rightarrow>
              Some (((w * 16 + x) * 16 + y) * 16 + z, drop 4 s))))))"

definition unescape :: "nat \<Rightarrow> nat option" where
  "unescape e =
     (if e = 0x22 then Some 0x22
      else if e = 0x5C then Some 0x5C
      else if e = 0x2F then Some 0x2F
      else if e = 0x62 then Some 0x08
      else if e = 0x66 then Some 0x0C
      else if e = 0x6E then Some 0x0A
      else if e = 0x72 then Some 0x0D
      else if e = 0x74 then Some 0x09
      else None)"

definition join_surrogates :: "nat \<Rightarrow> nat \<Rightarrow> nat" where
  "join_surrogates h l = 0x10000 + ((h - 0xD800) * 1024 + (l - 0xDC00))"

definition scan_u :: "ustring \<Rightarrow> (nat \<times> ustring) option" where
  "scan_u r =
     (case unhex4 r of
        None \<Rightarrow> None
      | Some (h, r1) \<Rightarrow>
          if is_high h \<and> startswith r1 [0x5C, 0x75] then
            (case unhex4 (drop 2 r1) of
               None \<Rightarrow> None
             | Some (l, r3) \<Rightarrow> if is_low l then Some (join_surrogates h l, r3) else Some (h, r1))
          else Some (h, r1))"

definition scan_escape :: "ustring \<Rightarrow> (nat \<times> ustring) option" where
  "scan_escape cs =
     (case cs of
        [] \<Rightarrow> None
      | e # r \<Rightarrow>
          if e = 0x75 then scan_u r
          else (case unescape e of None \<Rightarrow> None | Some x \<Rightarrow> Some (x, r)))"

definition emit :: "nat \<Rightarrow> (ustring \<times> ustring) option \<Rightarrow> (ustring \<times> ustring) option" where
  "emit c res = (case res of None \<Rightarrow> None | Some (s, r) \<Rightarrow> Some (c # s, r))"

lemma unhex4_shorter: "unhex4 s = Some (n, r) \<Longrightarrow> length r < length s"
  by (auto simp: unhex4_def split: option.splits if_splits)

lemma scan_u_shorter: "scan_u s = Some (n, r) \<Longrightarrow> length r < length s"
  by (auto simp: scan_u_def split: option.splits if_splits dest!: unhex4_shorter)

lemma scan_escape_shorter: "scan_escape s = Some (n, r) \<Longrightarrow> length r < length s"
  by (auto simp: scan_escape_def split: option.splits if_splits list.splits dest!: scan_u_shorter)


function scanstring :: "ustring \<Rightarrow> (ustring \<times> ustring) option" where
  "scanstring [] = None"
| "scanstring (c # cs) =
     (if c = 0x22 then Some ([], cs)
      else if c = 0x5C then
        (case scan_escape cs of None \<Rightarrow> None | Some (x, r) \<Rightarrow> emit x (scanstring r))
      else if c < 0x20 then None
      else emit c (scanstring cs))"
  by pat_completeness auto
termination
proof (relation "measure length")
  show "wf (measure length)" by simp
next
  fix c cs x2 x y
  assume "scan_escape cs = Some x2" "(x, y) = x2"
  then have "length y < length cs" using scan_escape_shorter [of cs x y] by simp
  then show "(y, c # cs) \<in> measure length" by simp
next
  fix c :: nat and cs :: ustring
  show "(cs, c # cs) \<in> measure length" by simp
qed

definition nat_of_digits :: "ustring \<Rightarrow> nat" where
  "nat_of_digits ds = foldl (\<lambda>n d. 10 * n + (d - 48)) 0 ds"

text \<open>A number: the integer part, then an optional fraction and an optional exponent.\<close>
definition scan_frac :: "ustring \<Rightarrow> ustring \<times> ustring" where
  "scan_frac r =
     (case r of
        p # d # t \<Rightarrow>
          if p = 0x2E \<and> is_digit d then (p # d # takeWhile is_digit t, dropWhile is_digit t)
          else ([], r)
      | _ \<Rightarrow> ([], r))"

definition scan_exp :: "ustring \<Rightarrow> ustring \<times> ustring" where
  "scan_exp r =
     (case r of
        [] \<Rightarrow> ([], r)
      | e # t \<Rightarrow>
          if e = 0x65 \<or> e = 0x45 then
            (let sg = (case t of x # y # _ \<Rightarrow> if x = 0x2D \<or> x = 0x2B then [x] else [] | _ \<Rightarrow> []);
                 t1 = drop (length sg) t;
                 ds = takeWhile is_digit t1
             in if ds = [] then ([], r) else (e # sg @ ds, dropWhile is_digit t1))
          else ([], r))"

definition match_number :: "ustring \<Rightarrow> (json \<times> ustring) option" where
  "match_number s =
     (let sg = (if startswith s [0x2D] then [0x2D] else []);
          s1 = drop (length sg) s
      in case s1 of
           [] \<Rightarrow> None
         | d # t \<Rightarrow>
             if is_digit d then
               (let ip = (if d = 0x30 then [d] else d # takeWhile is_digit t);
                    (fr, r1) = scan_frac (drop (length ip) s1);
                    (ex, r2) = scan_exp r1
                in if fr = [] \<and> ex = [] then
                     Some (JInt (if sg = [] then int (nat_of_digits ip) else - int (nat_of_digits ip)), r2)
                   else Some (JFloat (sg @ ip @ fr @ ex), r2))
             else None)"

fun dict_set :: "(ustring \<times> json) list \<Rightarrow> ustring \<Rightarrow> json \<Rightarrow> (ustring \<times> json) list" where
  "dict_set [] k v = [(k, v)]"
| "dict_set ((k', v') # kvs) k v = (if k' = k then (k, v) # kvs else (k', v') # dict_set kvs k v)"

definition dict_of :: "(ustring \<times> json) list \<Rightarrow> (ustring \<times> json) list" where
  "dict_of pairs = foldl (\<lambda>d (k, v). dict_set d k v) [] pairs"

lemma scanstring_shorter: "scanstring s = Some (x, r) \<Longrightarrow> length r < length s"
proof (induction s arbitrary: x rule: scanstring.induct)
  case 1
  then show ?case by simp
next
  case (2 c cs)
  show ?case
  proof (cases "c = 0x22")
    case True
    with "2.prems" show ?thesis by simp
  next
    case nq: False
    show ?thesis
    proof (cases "c = 0x5C")
      case True
      with nq "2.prems" obtain e r1 where e: "scan_escape cs = Some (e, r1)"
        by (auto split: option.splits)
      with True nq "2.prems" obtain x' where "scanstring r1 = Some (x', r)"
        by (auto simp: emit_def split: option.splits)
      with "2.IH"(1) [OF nq True e refl] have "length r < length r1" by blast
      moreover from e have "length r1 < length cs" by (rule scan_escape_shorter)
      ultimately show ?thesis by simp
    next
      case False
      with nq "2.prems" obtain x' where "\<not> c < 0x20" "scanstring cs = Some (x', r)"
        by (auto simp: emit_def split: option.splits if_splits)
      with "2.IH"(2) [OF nq False] have "length r < length cs" by blast
      then show ?thesis by simp
    qed
  qed
qed


lemma skip_ws_le: "length (skip_ws s) \<le> length s"
  by (simp add: skip_ws_def length_dropWhile_le)

lemma skip_ws_suffix: "skip_ws s = c # r \<Longrightarrow> length r < length s"
  using skip_ws_le [of s] by simp

function parse_value :: "ustring \<Rightarrow> (json \<times> ustring) option"
  and parse_elems :: "ustring \<Rightarrow> (json list \<times> ustring) option"
  and parse_members :: "ustring \<Rightarrow> ((ustring \<times> json) list \<times> ustring) option"
where
  "parse_value s =
     (case s of
        [] \<Rightarrow> None
      | c # r \<Rightarrow>
          if c = 0x22 then
            (case scanstring r of None \<Rightarrow> None | Some (x, r') \<Rightarrow> Some (JStr x, r'))
          else if c = 0x7B then
            (if startswith (skip_ws r) [0x7D] then Some (JObj [], drop 1 (skip_ws r))
             else (case parse_members (skip_ws r) of
                     None \<Rightarrow> None
                   | Some (kvs, r') \<Rightarrow> Some (JObj (dict_of kvs), r')))
          else if c = 0x5B then
            (if startswith (skip_ws r) [0x5D] then Some (JArr [], drop 1 (skip_ws r))
             else (case parse_elems (skip_ws r) of
                     None \<Rightarrow> None
                   | Some (vs, r') \<Rightarrow> Some (JArr vs, r')))
          else if startswith s (U ''null'') then Some (JNull, drop 4 s)
          else if startswith s (U ''true'') then Some (JBool True, drop 4 s)
          else if startswith s (U ''false'') then Some (JBool False, drop 5 s)
          else if startswith s (U ''NaN'') then Some (JFloat (U ''NaN''), drop 3 s)
          else if startswith s (U ''Infinity'') then Some (JFloat (U ''Infinity''), drop 8 s)
          else if startswith s (U ''-Infinity'') then Some (JFloat (U ''-Infinity''), drop 9 s)
          else match_number s)"
| "parse_elems s =
     (case parse_value s of
        None \<Rightarrow> None
      | Some (v, r) \<Rightarrow>
          (case skip_ws r of
             [] \<Rightarrow> None
           | d # r' \<Rightarrow>
               if d = 0x5D then Some ([v], r')
               else if d = 0x2C \<and> length r' < length s then
                 (case parse_elems (skip_ws r') of
                    None \<Rightarrow> None
                  | Some (vs, r'') \<Rightarrow> Some (v # vs, r''))
               else None))"
| "parse_members s =
     (case s of
        [] \<Rightarrow> None
      | q # r0 \<Rightarrow>
          if q \<noteq> 0x22 then None
          else (case scanstring r0 of
                  None \<Rightarrow> None
                | Some (k, r1) \<Rightarrow>
                    (case skip_ws r1 of
                       [] \<Rightarrow> None
                     | col # r2 \<Rightarrow>
                         if col \<noteq> 0x3A then None
                         else (case parse_value (skip_ws r2) of
                                 None \<Rightarrow> None
                               | Some (v, r3) \<Rightarrow>
                                   (case skip_ws r3 of
                                      [] \<Rightarrow> None
                                    | d # r4 \<Rightarrow>
                                        if d = 0x7D then Some ([(k, v)], r4)
                                        else if d = 0x2C \<and> length r4 < length s then
                                          (case parse_members (skip_ws r4) of
                                             None \<Rightarrow> None
                                           | Some (kvs, r5) \<Rightarrow> Some ((k, v) # kvs, r5))
                                        else None)))))"
  by pat_completeness auto

termination
proof (relation "measure (\<lambda>x. case x of Inl s \<Rightarrow> 2 * length s
                                   | Inr (Inl s) \<Rightarrow> 2 * length s + 1
                                   | Inr (Inr s) \<Rightarrow> 2 * length s + 1)", goal_cases)
  case 1
  show ?case by simp
next
  case (2 s c r)
  then show ?case using skip_ws_le [of r] by simp
next
  case (3 s c r)
  then show ?case using skip_ws_le [of r] by simp
next
  case (4 s)
  show ?case by simp
next
  case (5 s x2 v r d r')
  then show ?case using skip_ws_le [of r'] by simp
next
  case (6 s q r0 x2 k r1 col r2)
  then have "length r1 < length r0" using scanstring_shorter [of r0 k r1] by simp
  moreover have "length r2 < length r1" using 6 skip_ws_suffix [of r1 col r2] by simp
  ultimately show ?case using 6 skip_ws_le [of r2] by simp
next
  case (7 s q r0 x2 k r1 col r2 x2a v r3 d r4)
  then show ?case using skip_ws_le [of r4] by simp
qed

declare parse_value.simps [simp del] parse_elems.simps [simp del] parse_members.simps [simp del]

definition loads :: "ustring \<Rightarrow> json option" where
  "loads s =
     (if startswith s [0xFEFF] then None
      else (case parse_value (skip_ws s) of
              None \<Rightarrow> None
            | Some (obj, r) \<Rightarrow> if skip_ws r = [] then Some obj else None))"

section \<open>Reading a frame\<close>

text \<open>The exceptions the program can raise; none of them is caught, so each ends the process.\<close>

datatype error =
    AssertionError
  | ValueError
  | OverflowError
  | JSONDecodeError
  | KeyError
  | TypeError
  | UnicodeEncodeError

subsection \<open>\<^verbatim>\<open>int()\<close> of a string\<close>

text \<open>
  \<^verbatim>\<open>int(s)\<close> in base 10: a string with a character beyond ASCII first has its Unicode
  spaces and decimal digits replaced by ASCII ones (any other character beyond ASCII
  becomes \<^verbatim>\<open>?\<close>, which is no digit); then white space, an optional sign, digits with
  single underscores between them, white space. \<open>None\<close> is \<^verbatim>\<open>ValueError\<close>. The
  interpreter's optional limit on the number of digits is not modelled.
\<close>

definition ascii_space :: "nat \<Rightarrow> bool" where
  "ascii_space c \<longleftrightarrow> c = 0x20 \<or> (0x09 \<le> c \<and> c \<le> 0x0D)"

fun transform_chars :: "pyenv \<Rightarrow> ustring \<Rightarrow> ustring" where
  "transform_chars env [] = []"
| "transform_chars env (c # cs) =
     (if c < 127 then c # transform_chars env cs
      else if uni_space env c then 0x20 # transform_chars env cs
      else (case uni_decimal env c of
              None \<Rightarrow> [0x3F]
            | Some d \<Rightarrow> (0x30 + d) # transform_chars env cs))"

definition to_ascii :: "pyenv \<Rightarrow> ustring \<Rightarrow> ustring" where
  "to_ascii env s = (if list_all (\<lambda>c. c < 128) s then s else transform_chars env s)"

fun scan_int :: "nat \<Rightarrow> ustring \<Rightarrow> (nat \<times> ustring) option" where
  "scan_int acc [] = Some (acc, [])"
| "scan_int acc (c # cs) =
     (if is_digit c then scan_int (10 * acc + (c - 48)) cs
      else if c = 0x5F then
        (case cs of
           [] \<Rightarrow> None
         | d # ds \<Rightarrow> if is_digit d then scan_int (10 * acc + (d - 48)) ds else None)
      else Some (acc, c # cs))"

definition py_int :: "pyenv \<Rightarrow> ustring \<Rightarrow> int option" where
  "py_int env s =
     (let t = dropWhile ascii_space (to_ascii env s);
          neg = startswith t [0x2D];
          t1 = (if startswith t [0x2B] \<or> neg then drop 1 t else t)
      in case t1 of
           [] \<Rightarrow> None
         | d # ds \<Rightarrow>
             if is_digit d then
               (case scan_int (d - 48) ds of
                  None \<Rightarrow> None
                | Some (n, r) \<Rightarrow>
                    if dropWhile ascii_space r = [] then Some (if neg then - int n else int n)
                    else None)
             else None)"

subsection \<open>The text stream\<close>

text \<open>
  \<^verbatim>\<open>sys.stdin\<close> is the text of standard input, already decoded, as a POSIX interpreter
  opens it: a line ends at \<^verbatim>\<open>\n\<close> and nothing is translated. \<^verbatim>\<open>readline\<close> returns
  the line with its newline (the empty string at the end of input) and \<^verbatim>\<open>read(n)\<close>
  returns at most \<open>n\<close> characters, all of them when \<open>n\<close> is negative; an \<open>n\<close> outside
  the 64-bit index range raises \<^verbatim>\<open>OverflowError\<close>. Both return the unread text too.
\<close>

definition readline :: "ustring \<Rightarrow> ustring \<times> ustring" where
  "readline s =
     (case dropWhile (\<lambda>c. c \<noteq> 0x0A) s of
        [] \<Rightarrow> (s, [])
      | nl # rest \<Rightarrow> (takeWhile (\<lambda>c. c \<noteq> 0x0A) s @ [nl], rest))"

definition read :: "int \<Rightarrow> ustring \<Rightarrow> error + ustring \<times> ustring" where
  "read n s =
     (if n < - (2 ^ 63) \<or> 2 ^ 63 \<le> n then Inl OverflowError
      else if n < 0 then Inr (s, [])
      else Inr (take (nat n) s, drop (nat n) s))"

text \<open>
  Lines 6 to 13 of \<^verbatim>\<open>server.py\<close>: the header line, the separator line, the body.
\<close>

datatype received = EndOfInput | Failed error ustring | Message json ustring

definition read_message :: "pyenv \<Rightarrow> ustring \<Rightarrow> received" where
  "read_message env s =
     (let (line, s1) = readline s in
      if length line = 0 then EndOfInput
      else if \<not> startswith line (U ''Content-Length:'') then Failed AssertionError s1
      else (case py_int env (drop (length (U ''Content-Length:'')) line) of
              None \<Rightarrow> Failed ValueError s1
            | Some len \<Rightarrow>
                (let (blank, s2) = readline s1 in
                 case read len s2 of
                   Inl e \<Rightarrow> Failed e s2
                 | Inr (body, s3) \<Rightarrow>
                     (case loads body of
                        None \<Rightarrow> Failed JSONDecodeError s3
                      | Some message \<Rightarrow> Message message s3))))"

section \<open>The dispatch loop\<close>

text \<open>
  \<^verbatim>\<open>"unhandled method {}".format(x)\<close> inserts \<^verbatim>\<open>str(x)\<close>: a string as it is, and
  \<^verbatim>\<open>None\<close>, a bool or an integer by its name or digits.
\<close>

definition py_str :: "pyenv \<Rightarrow> json \<Rightarrow> ustring" where
  "py_str env v =
     (case v of
        JStr s \<Rightarrow> s
      | JNull \<Rightarrow> U ''None''
      | JBool b \<Rightarrow> (if b then U ''True'' else U ''False'')
      | JInt i \<Rightarrow> str_int i
      | _ \<Rightarrow> str_other env v)"

text \<open>The fixed payloads of lines 20 to 29 and 45 to 78.\<close>

definition initialize_result :: json where
  "initialize_result =
     JObj [(U ''displayName'', JStr (U ''test server'')),
           (U ''version'', JStr (U ''0.1'')),
           (U ''bspVersion'', JStr (U ''2.0'')),
           (U ''rootUri'', JStr (U ''blah'')),
           (U ''capabilities'', JObj [(U ''languageIds'', JArr [JStr (U ''a''), JStr (U ''b'')])]),
           (U ''data'', JObj [(U ''indexStorePath'', JStr (U ''some/index/store/path''))])]"

definition source_item :: "string \<Rightarrow> int \<Rightarrow> json" where
  "source_item uri kind =
     JObj [(U ''uri'', JStr (U uri)), (U ''kind'', JInt kind), (U ''generated'', JBool False)]"

definition sources_result :: json where
  "sources_result =
     JObj [(U ''items'', JArr [
       JObj [(U ''target'', JObj [(U ''uri'', JStr (U ''build://target/a''))]),
             (U ''sources'', JArr [source_item ''file:///path/to/a/file'' 1,
                                   source_item ''file:///path/to/a/folder/'' 2])],
       JObj [(U ''target'', JObj [(U ''uri'', JStr (U ''build://target/b''))]),
             (U ''sources'', JArr [source_item ''file:///path/to/b/file'' 1,
                                   source_item ''file:///path/to/b/folder/'' 2])]])]"

text \<open>The response dicts of lines 17, 34, 42 and 82, keys in the order written.\<close>

type_synonym dict = "(ustring \<times> json) list"

definition result_response :: "json \<Rightarrow> json \<Rightarrow> dict" where
  "result_response i r = [(U ''jsonrpc'', JStr (U ''2.0'')), (U ''id'', i), (U ''result'', r)]"

definition error_response :: "json \<Rightarrow> ustring \<Rightarrow> dict" where
  "error_response i msg =
     [(U ''jsonrpc'', JStr (U ''2.0'')), (U ''id'', i),
      (U ''error'', JObj [(U ''code'', JInt 123), (U ''message'', JStr msg)])]"

text \<open>
  Lines 15 to 89: how control leaves the \<^verbatim>\<open>if\<close> chain. \<open>Fall r\<close> reaches line 91 with
  \<^verbatim>\<open>response\<close> being \<open>r\<close> (\<open>None\<close> as initialised in line 15); \<open>Continue\<close> and
  \<open>Break\<close> are the statements of lines 32 and 40. \<^verbatim>\<open>message["method"]\<close> and
  \<^verbatim>\<open>message["id"]\<close> raise \<^verbatim>\<open>KeyError\<close> on a dict without the key, and
  \<^verbatim>\<open>message["method"]\<close> raises \<^verbatim>\<open>TypeError\<close> on a value that is no dict.
\<close>

datatype flow = Fall "dict option" | Continue | Break

definition getitem :: "dict \<Rightarrow> string \<Rightarrow> error + json" where
  "getitem d k = (case map_of d (U k) of None \<Rightarrow> Inl KeyError | Some v \<Rightarrow> Inr v)"

definition with_id :: "dict \<Rightarrow> (json \<Rightarrow> dict) \<Rightarrow> error + flow" where
  "with_id d f = (case getitem d ''id'' of Inl e \<Rightarrow> Inl e | Inr i \<Rightarrow> Inr (Fall (Some (f i))))"

fun dispatch :: "pyenv \<Rightarrow> json \<Rightarrow> error + flow" where
  "dispatch env (JObj d) =
     (case getitem d ''method'' of
        Inl e \<Rightarrow> Inl e
      | Inr method \<Rightarrow>
          if method = JStr (U ''build/initialize'') then
            with_id d (\<lambda>i. result_response i initialize_result)
          else if method = JStr (U ''build/initialized'') then Inr Continue
          else if method = JStr (U ''build/shutdown'') then
            with_id d (\<lambda>i. result_response i JNull)
          else if method = JStr (U ''build/exit'') then Inr Break
          else if method = JStr (U ''buildTarget/sources'') then
            with_id d (\<lambda>i. result_response i sources_result)
          else if map_of d (U ''id'') \<noteq> None then
            with_id d (\<lambda>i. error_response i (U ''unhandled method '' @ py_str env method))
          else Inr (Fall None))"
| "dispatch env _ = Inl TypeError"

text \<open>
  Lines 92 and 94: the bytes of one frame. \<^verbatim>\<open>len(responseStr)\<close> counts code points.
\<close>

definition encode_frame :: "pyenv \<Rightarrow> dict \<Rightarrow> string option" where
  "encode_frame env response =
     (let responseStr = dumps env (JObj response)
      in utf8_encode (U ''Content-Length: '' @ str_nat (length responseStr) @
                      [0x0D, 0x0A, 0x0D, 0x0A] @ responseStr))"

text \<open>
  The process and its two streams: the unread text of standard input, the byte strings
  written to standard output so far (oldest first), and how many more writes the peer
  accepts before it closes its end (\<open>None\<close>: it never does). A write to a closed peer
  raises \<^verbatim>\<open>IOError\<close>.
\<close>

record world =
  stdin :: ustring
  stdout :: "string list"
  accepts :: "nat option"

definition write_bytes :: "string \<Rightarrow> world \<Rightarrow> world option" where
  "write_bytes bs w =
     (case accepts w of
        None \<Rightarrow> Some (w\<lparr>stdout := stdout w @ [bs]\<rparr>)
      | Some 0 \<Rightarrow> None
      | Some (Suc k) \<Rightarrow> Some (w\<lparr>stdout := stdout w @ [bs], accepts := Some k\<rparr>))"

text \<open>
  How the process ends: at the end of input (line 8), at \<^verbatim>\<open>build/exit\<close> (line 40),
  when the peer has closed standard output (line 98), or by an uncaught exception.
\<close>

datatype outcome = Eof | Exited | PeerClosed | Fatal error

lemma readline_shorter:
  assumes "readline s = (line, s1)" and "line \<noteq> []"
  shows "length s1 < length s"
proof (cases "dropWhile (\<lambda>c. c \<noteq> 0x0A) s")
  case Nil
  with assms show ?thesis by (simp add: readline_def)
next
  case (Cons nl rest)
  have "length (dropWhile (\<lambda>c. c \<noteq> 0x0A) s) \<le> length s" by (rule length_dropWhile_le)
  with Cons have "length rest < length s" by simp
  moreover from assms(1) Cons have "s1 = rest" by (simp add: readline_def)
  ultimately show ?thesis by simp
qed

lemma readline_le:
  assumes "readline s = (line, s1)"
  shows "length s1 \<le> length s"
proof (cases "dropWhile (\<lambda>c. c \<noteq> 0x0A) s")
  case Nil
  with assms show ?thesis by (simp add: readline_def)
next
  case (Cons nl rest)
  have "length (dropWhile (\<lambda>c. c \<noteq> 0x0A) s) \<le> length s" by (rule length_dropWhile_le)
  with Cons have "length rest < length s" by simp
  moreover from assms(1) Cons have "s1 = rest" by (simp add: readline_def)
  ultimately show ?thesis by simp
qed

lemma read_le: "read n s = Inr (body, r) \<Longrightarrow> length r \<le> length s"
  by (auto simp: read_def split: if_splits)

lemma read_message_shorter:
  assumes "read_message env s = Message m r"
  shows "length r < length s"
proof -
  obtain line s1 where l: "readline s = (line, s1)" by (cases "readline s")
  obtain blank s2 where b: "readline s1 = (blank, s2)" by (cases "readline s1")
  from assms l have ne: "line \<noteq> []"
    by (auto simp: read_message_def)
  from assms l b ne obtain len body where "read len s2 = Inr (body, r)"
    by (auto simp: read_message_def split: if_splits option.splits sum.splits)
  then have "length r \<le> length s2" by (rule read_le)
  moreover have "length s2 \<le> length s1" using b by (rule readline_le)
  moreover have "length s1 < length s" using l ne by (rule readline_shorter)
  ultimately show ?thesis by simp
qed

lemma stdin_write: "write_bytes bs w = Some w' \<Longrightarrow> stdin w' = stdin w"
  by (auto simp: write_bytes_def split: option.splits nat.splits)

text \<open>
  One pass through the loop body: \<open>respond\<close> is lines 91 to 98, \<open>iteration\<close> lines 6
  to 98. A dict is true when it is not empty.
\<close>

datatype step = Done outcome world | Next world

definition respond :: "pyenv \<Rightarrow> dict option \<Rightarrow> world \<Rightarrow> step" where
  "respond env response w =
     (case response of
        None \<Rightarrow> Next w
      | Some r \<Rightarrow>
          if r = [] then Next w
          else (case encode_frame env r of
                  None \<Rightarrow> Done (Fatal UnicodeEncodeError) w
                | Some bs \<Rightarrow>
                    (case write_bytes bs w of
                       None \<Rightarrow> Done PeerClosed w
                     | Some w' \<Rightarrow> Next w')))"

definition iteration :: "pyenv \<Rightarrow> world \<Rightarrow> step" where
  "iteration env w =
     (case read_message env (stdin w) of
        EndOfInput \<Rightarrow> Done Eof w
      | Failed e rest \<Rightarrow> Done (Fatal e) (w\<lparr>stdin := rest\<rparr>)
      | Message message rest \<Rightarrow>
          (case dispatch env message of
             Inl e \<Rightarrow> Done (Fatal e) (w\<lparr>stdin := rest\<rparr>)
           | Inr Continue \<Rightarrow> Next (w\<lparr>stdin := rest\<rparr>)
           | Inr Break \<Rightarrow> Done Exited (w\<lparr>stdin := rest\<rparr>)
           | Inr (Fall response) \<Rightarrow> respond env response (w\<lparr>stdin := rest\<rparr>)))"

lemma respond_stdin: "respond env response w = Next w' \<Longrightarrow> stdin w' = stdin w"
  by (auto simp: respond_def split: option.splits if_splits dest: stdin_write)

lemma iteration_shorter:
  assumes "iteration env w = Next w'"
  shows "length (stdin w') < length (stdin w)"
proof -
  from assms obtain m r where m: "read_message env (stdin w) = Message m r"
    by (auto simp: iteration_def split: received.splits)
  with assms have "stdin w' = r"
    by (auto simp: iteration_def split: sum.splits flow.splits dest: respond_stdin)
  with m show ?thesis by (simp add: read_message_shorter)
qed

text \<open>The loop of line 5. Every pass that goes on has consumed input, so it terminates.\<close>

function run :: "pyenv \<Rightarrow> world \<Rightarrow> outcome \<times> world" where
  "run env w = (case iteration env w of Done oc w' \<Rightarrow> (oc, w') | Next w' \<Rightarrow> run env w')"
  by pat_completeness auto
termination
  by (relation "measure (\<lambda>(env, w). length (stdin w))") (simp_all add: iteration_shorter)

declare run.simps [simp del]

section \<open>Notions for stating the properties\<close>

text \<open>The world a pass of the loop leaves behind, whether the loop goes on or not.\<close>

definition world_of :: "step \<Rightarrow> world" where
  "world_of st = (case st of Done oc w \<Rightarrow> w | Next w \<Rightarrow> w)"

text \<open>Reading fields of a decoded value, for describing payloads.\<close>

fun field :: "string \<Rightarrow> json \<Rightarrow> json option" where
  "field k (JObj d) = map_of d (U k)"
| "field k _ = None"

fun elems :: "json \<Rightarrow> json list" where
  "elems (JArr xs) = xs"
| "elems _ = []"

definition source_entries :: "json \<Rightarrow> (json option \<times> json option) list option" where
  "source_entries item =
     map_option (\<lambda>srcs. map (\<lambda>s. (field ''kind'' s, field ''generated'' s)) (elems srcs))
       (field ''sources'' item)"

subsection \<open>Concrete runs\<close>

text \<open>
  An interpreter for the concrete runs below. None of them meets a float, a header
  character beyond ASCII or a method that is not a string, so its tables are never
  consulted. A fresh process has written nothing, and its peer never closes.
\<close>

definition test_env :: pyenv where
  "test_env = \<lparr>uni_space = (\<lambda>c. False), uni_decimal = (\<lambda>c. None),
               float_repr = (\<lambda>l. []), str_other = (\<lambda>v. [])\<rparr>"

definition fresh :: "ustring \<Rightarrow> world" where
  "fresh s = \<lparr>stdin = s, stdout = [], accepts = None\<rparr>"

definition crlf :: ustring where
  "crlf = [0x0D, 0x0A]"

text \<open>
  Text that is ASCII only, and the well-formed frame around a body of bytes: its header
  declares the number of bytes of the body.
\<close>

definition ascii :: "ustring \<Rightarrow> bool" where
  "ascii s = list_all (\<lambda>c. c < 128) s"

definition framed :: "string \<Rightarrow> string" where
  "framed body =
     map char_of (U ''Content-Length: '' @ str_nat (length body) @ [0x0D, 0x0A, 0x0D, 0x0A]) @ body"

subsection \<open>The round trip\<close>

text \<open>
  Strings as \<^verbatim>\<open>json.loads\<close> returns them for a text that holds no surrogate itself:
  code points only, and never a high surrogate directly before a low one (the scanner
  joins such a pair of escapes into one character). Values built from them, without
  floats and with distinct keys in every dict.
\<close>

fun wf_str :: "ustring \<Rightarrow> bool" where
  "wf_str [] = True"
| "wf_str [c] = (c < 0x110000)"
| "wf_str (c # b # s) = (c < 0x110000 \<and> \<not> (is_high c \<and> is_low b) \<and> wf_str (b # s))"


text \<open>What may follow a value inside serialised text: nothing, a comma or a closing bracket.\<close>

definition delim :: "ustring \<Rightarrow> bool" where
  "delim rest \<longleftrightarrow> (case rest of [] \<Rightarrow> True | c # _ \<Rightarrow> c = 0x2C \<or> c = 0x5D \<or> c = 0x7D)"


text \<open>How \<^verbatim>\<open>json.dumps\<close> writes a character: with a two-character escape, as itself, or as \<^verbatim>\<open>\u\<close> escapes.\<close>

definition simple_escape :: "nat \<Rightarrow> bool" where
  "simple_escape c \<longleftrightarrow> c \<in> {0x22, 0x5C, 0x0A, 0x0D, 0x09, 0x0C, 0x08}"

definition printable :: "nat \<Rightarrow> bool" where
  "printable c \<longleftrightarrow> 0x20 \<le> c \<and> c \<le> 0x7E \<and> c \<noteq> 0x22 \<and> c \<noteq> 0x5C"







section \<open>Properties\<close>

subsection \<open>Evaluating concrete frames\<close>

lemmas text_defs = U_def crlf_def startswith_def

lemmas int_defs = py_int_def to_ascii_def ascii_space_def is_digit_def

lemmas loads_defs = loads_def skip_ws_def is_ws_def parse_value.simps parse_elems.simps
  parse_members.simps scanstring.simps emit_def scan_escape_def unescape_def scan_u_def
  unhex4_def hexval_def is_high_def is_low_def match_number_def scan_frac_def scan_exp_def
  nat_of_digits_def dict_of_def

lemmas frame_defs = read_message_def readline_def read_def

lemma example_notification:
  \<open>read_message env (U ''Content-Length: 16'' @ crlf @ crlf @ U ''{"method":"foo"}'' @ rest)
     = Message (JObj [(U ''method'', JStr (U ''foo''))]) rest\<close>
  by (simp add: text_defs int_defs loads_defs frame_defs)

subsection \<open>Dispatch\<close>

lemma getitem_simps:
  "map_of d (U k) = Some v \<Longrightarrow> getitem d k = Inr v"
  "map_of d (U k) = None \<Longrightarrow> getitem d k = Inl KeyError"
  by (simp_all add: getitem_def)

lemma with_id_simps:
  "map_of d (U ''id'') = Some i \<Longrightarrow> with_id d f = Inr (Fall (Some (f i)))"
  "map_of d (U ''id'') = None \<Longrightarrow> with_id d f = Inl KeyError"
  by (simp_all add: with_id_def getitem_def)

lemma dispatch_no_id:
  assumes "map_of d (U ''id'') = None"
  shows "dispatch env (JObj d) \<in> {Inl KeyError, Inr Continue, Inr Break, Inr (Fall None)}"
proof (cases "map_of d (U ''method'')")
  case None
  then show ?thesis by (simp add: getitem_simps)
next
  case (Some m)
  with assms show ?thesis by (simp add: getitem_simps with_id_simps)
qed

lemma respond_None: "respond env None w = Next w"
  by (simp add: respond_def)

subsection \<open>Notifications\<close>

text \<open>
  Claim C5. For every received envelope without an id (a notification), the server writes
  no frame in response to that envelope: whatever the pass of the loop that reads it does
  (go on, stop or fail), standard output is as it was before.
\<close>

theorem notification_writes_nothing:
  assumes "read_message env (stdin w) = Message (JObj d) rest"
    and "map_of d (U ''id'') = None"
  shows "stdout (world_of (iteration env w)) = stdout w"
proof -
  from dispatch_no_id [OF assms(2), of env]
  consider "dispatch env (JObj d) = Inl KeyError" | "dispatch env (JObj d) = Inr Continue"
    | "dispatch env (JObj d) = Inr Break" | "dispatch env (JObj d) = Inr (Fall None)"
    by blast
  then show ?thesis
  proof cases
    case 1
    with assms(1) show ?thesis by (simp add: iteration_def world_of_def)
  next
    case 2
    with assms(1) show ?thesis by (simp add: iteration_def world_of_def)
  next
    case 3
    with assms(1) show ?thesis by (simp add: iteration_def world_of_def)
  next
    case 4
    with assms(1) show ?thesis by (simp add: iteration_def world_of_def respond_None)
  qed
qed

theorem notification_writes_nothing_witness:
  \<open>read_message test_env
       (stdin (fresh (U ''Content-Length: 16'' @ crlf @ crlf @ U ''{"method":"foo"}'')))
     = Message (JObj [(U ''method'', JStr (U ''foo''))]) [] \<and>
   map_of [(U ''method'', JStr (U ''foo''))] (U ''id'') = None \<and>
   stdout (world_of (iteration test_env
     (fresh (U ''Content-Length: 16'' @ crlf @ crlf @ U ''{"method":"foo"}'')))) = []\<close>
proof -
  have r: \<open>read_message test_env
       (stdin (fresh (U ''Content-Length: 16'' @ crlf @ crlf @ U ''{"method":"foo"}'')))
     = Message (JObj [(U ''method'', JStr (U ''foo''))]) []\<close>
    using example_notification [of test_env "[]"] by (simp add: fresh_def)
  have n: "map_of [(U ''method'', JStr (U ''foo''))] (U ''id'') = None"
    by (simp add: U_def)
  from notification_writes_nothing [OF r n] r n show ?thesis by (simp add: fresh_def)
qed

subsection \<open>Leaving the loop\<close>

lemma example_exit:
  \<open>read_message env (U ''Content-Length: 23'' @ crlf @ crlf @ U ''{"method":"build/exit"}'' @ rest)
     = Message (JObj [(U ''method'', JStr (U ''build/exit''))]) rest\<close>
  by (simp add: text_defs int_defs loads_defs frame_defs)

text \<open>
  Claim C9. On an envelope with method \<^verbatim>\<open>build/exit\<close> the loop ends at once: the run
  is over with standard output as it was, and the input after that frame is left unread.
\<close>

theorem exit_terminates:
  assumes "read_message env (stdin w) = Message (JObj d) rest"
    and "map_of d (U ''method'') = Some (JStr (U ''build/exit''))"
  shows "run env w = (Exited, w\<lparr>stdin := rest\<rparr>)"
proof -
  from assms(2) have "dispatch env (JObj d) = Inr Break"
    by (simp add: getitem_simps U_def)
  with assms(1) have "iteration env w = Done Exited (w\<lparr>stdin := rest\<rparr>)"
    by (simp add: iteration_def)
  then show ?thesis by (simp add: run.simps)
qed

theorem exit_terminates_witness:
  \<open>run test_env (fresh (U ''Content-Length: 23'' @ crlf @ crlf @ U ''{"method":"build/exit"}'' @
                        U ''Content-Length: 16'' @ crlf @ crlf @ U ''{"method":"foo"}''))
   = (Exited, fresh (U ''Content-Length: 16'' @ crlf @ crlf @ U ''{"method":"foo"}''))\<close>
proof -
  let ?more = \<open>U ''Content-Length: 16'' @ crlf @ crlf @ U ''{"method":"foo"}''\<close>
  let ?w = \<open>fresh (U ''Content-Length: 23'' @ crlf @ crlf @ U ''{"method":"build/exit"}'' @ ?more)\<close>
  have r: "read_message test_env (stdin ?w)
           = Message (JObj [(U ''method'', JStr (U ''build/exit''))]) ?more"
    using example_exit [of test_env ?more] by (simp add: fresh_def)
  have m: "map_of [(U ''method'', JStr (U ''build/exit''))] (U ''method'')
           = Some (JStr (U ''build/exit''))"
    by simp
  from exit_terminates [OF r m] show ?thesis by (simp add: fresh_def)
qed

subsection \<open>Envelopes without an id\<close>

lemma example_initialize_notification:
  \<open>read_message env
     (U ''Content-Length: 29'' @ crlf @ crlf @ U ''{"method":"build/initialize"}'' @ rest)
     = Message (JObj [(U ''method'', JStr (U ''build/initialize''))]) rest\<close>
  by (simp add: text_defs int_defs loads_defs frame_defs)

text \<open>
  Claim C4, as stated, fails: an envelope without an id whose method is
  \<^verbatim>\<open>build/initialize\<close> ends the process with \<^verbatim>\<open>KeyError\<close>, raised by
  \<^verbatim>\<open>message["id"]\<close> in line 19.
\<close>

theorem initialize_notification_fatal:
  \<open>run test_env (fresh (U ''Content-Length: 29'' @ crlf @ crlf @ U ''{"method":"build/initialize"}''))
   = (Fatal KeyError, fresh [])\<close>
proof -
  have d: "dispatch test_env (JObj [(U ''method'', JStr (U ''build/initialize''))]) = Inl KeyError"
    by (simp add: getitem_def with_id_def U_def)
  have \<open>iteration test_env
          (fresh (U ''Content-Length: 29'' @ crlf @ crlf @ U ''{"method":"build/initialize"}''))
        = Done (Fatal KeyError) (fresh [])\<close>
    using example_initialize_notification [of test_env "[]"] d
    by (simp add: iteration_def fresh_def)
  then show ?thesis by (simp add: run.simps)
qed

text \<open>
  Claim C4, amended. The presence of the id decides between request and notification
  for every method that is not one of the three answered with a result: an envelope
  without an id whose method is not \<^verbatim>\<open>build/initialize\<close>, \<^verbatim>\<open>build/shutdown\<close> or
  \<^verbatim>\<open>buildTarget/sources\<close> gets no reply and raises no error. The pass of the loop only
  consumes the frame; the loop then goes on, or ends if the method is \<^verbatim>\<open>build/exit\<close>.
\<close>

theorem notification_no_reply_no_fatal:
  assumes "read_message env (stdin w) = Message (JObj d) rest"
    and "map_of d (U ''method'') = Some m"
    and "map_of d (U ''id'') = None"
    and "m \<noteq> JStr (U ''build/initialize'')"
    and "m \<noteq> JStr (U ''build/shutdown'')"
    and "m \<noteq> JStr (U ''buildTarget/sources'')"
  shows "iteration env w =
           (if m = JStr (U ''build/exit'') then Done Exited (w\<lparr>stdin := rest\<rparr>)
            else Next (w\<lparr>stdin := rest\<rparr>))"
proof -
  from assms(2-6) have
    "dispatch env (JObj d) =
       (if m = JStr (U ''build/initialized'') then Inr Continue
        else if m = JStr (U ''build/exit'') then Inr Break
        else Inr (Fall None))"
    by (simp add: getitem_simps)
  with assms(1) show ?thesis
    by (simp add: iteration_def respond_None U_def)
qed

theorem notification_no_reply_no_fatal_witness:
  \<open>iteration test_env (fresh (U ''Content-Length: 16'' @ crlf @ crlf @ U ''{"method":"foo"}''))
   = Next (fresh [])\<close>
proof -
  let ?w = \<open>fresh (U ''Content-Length: 16'' @ crlf @ crlf @ U ''{"method":"foo"}'')\<close>
  have r: "read_message test_env (stdin ?w) = Message (JObj [(U ''method'', JStr (U ''foo''))]) []"
    using example_notification [of test_env "[]"] by (simp add: fresh_def)
  have m: "map_of [(U ''method'', JStr (U ''foo''))] (U ''method'') = Some (JStr (U ''foo''))"
    by simp
  have n: "map_of [(U ''method'', JStr (U ''foo''))] (U ''id'') = None"
    by (simp add: U_def)
  have d: "JStr (U ''foo'') \<noteq> JStr (U ''build/initialize'')"
    "JStr (U ''foo'') \<noteq> JStr (U ''build/shutdown'')"
    "JStr (U ''foo'') \<noteq> JStr (U ''buildTarget/sources'')"
    by (simp_all add: U_def)
  from notification_no_reply_no_fatal [OF r m n d] show ?thesis
    by (simp add: fresh_def U_def)
qed

subsection \<open>The fixed payloads\<close>

text \<open>
  Claim C10. A \<^verbatim>\<open>buildTarget/sources\<close> request is answered with its own id and a result
  whose \<^verbatim>\<open>items\<close> list has exactly two items; the \<^verbatim>\<open>sources\<close> list of each item has
  exactly two entries, of kind 1 then kind 2, both with \<^verbatim>\<open>generated\<close> false.
\<close>

theorem sources_response_shape:
  assumes "map_of d (U ''method'') = Some (JStr (U ''buildTarget/sources''))"
    and "map_of d (U ''id'') = Some i"
  shows "\<exists>items.
           dispatch env (JObj d)
             = Inr (Fall (Some (result_response i (JObj [(U ''items'', JArr items)])))) \<and>
           length items = 2 \<and>
           map source_entries items =
             [Some [(Some (JInt 1), Some (JBool False)), (Some (JInt 2), Some (JBool False))],
              Some [(Some (JInt 1), Some (JBool False)), (Some (JInt 2), Some (JBool False))]]"
proof -
  from assms have "dispatch env (JObj d) = Inr (Fall (Some (result_response i sources_result)))"
    by (simp add: getitem_simps with_id_simps U_def)
  then show ?thesis
    by (intro exI [of _ "elems (snd (hd (case sources_result of JObj kvs \<Rightarrow> kvs)))"])
       (simp add: sources_result_def source_entries_def source_item_def U_def)
qed

theorem sources_response_shape_witness:
  \<open>\<exists>items.
     dispatch test_env (JObj [(U ''id'', JInt 2), (U ''method'', JStr (U ''buildTarget/sources''))])
       = Inr (Fall (Some (result_response (JInt 2) (JObj [(U ''items'', JArr items)])))) \<and>
     length items = 2 \<and>
     map source_entries items =
       [Some [(Some (JInt 1), Some (JBool False)), (Some (JInt 2), Some (JBool False))],
        Some [(Some (JInt 1), Some (JBool False)), (Some (JInt 2), Some (JBool False))]]\<close>
proof -
  have m: "map_of [(U ''id'', JInt 2), (U ''method'', JStr (U ''buildTarget/sources''))]
             (U ''method'') = Some (JStr (U ''buildTarget/sources''))"
    by (simp add: U_def)
  have i: "map_of [(U ''id'', JInt 2), (U ''method'', JStr (U ''buildTarget/sources''))]
             (U ''id'') = Some (JInt 2)"
    by simp
  from sources_response_shape [OF m i] show ?thesis .
qed

subsection \<open>Serialised text is ASCII\<close>

lemma ascii_simps [simp]:
  "ascii []"
  "ascii (c # s) \<longleftrightarrow> c < 128 \<and> ascii s"
  "ascii (s @ t) \<longleftrightarrow> ascii s \<and> ascii t"
  by (simp_all add: ascii_def)

lemma utf8_encode_ascii: "ascii s \<Longrightarrow> utf8_encode s = Some (map char_of s)"
  by (induction s) (simp_all add: utf8_char_def)

lemma digits_less: "d \<in> set (digits n) \<Longrightarrow> d < 10"
proof (induction n rule: digits.induct)
  case (1 n)
  show ?case
  proof (cases "n < 10")
    case True
    with "1.prems" show ?thesis by (simp add: digits.simps [of n])
  next
    case False
    with "1.prems" have "d \<in> set (digits (n div 10)) \<or> d = n mod 10"
      by (auto simp: digits.simps [of n])
    with False "1.IH" show ?thesis by auto
  qed
qed

lemma ascii_str_nat: "ascii (str_nat n)"
  using digits_less [of _ n] by (fastforce simp: ascii_def str_nat_def list_all_iff)

lemma ascii_str_int: "ascii (str_int i)"
  by (simp add: str_int_def ascii_str_nat)

lemma hex_digit_less: "hex_digit (n mod 16) < 128"
proof -
  have "n mod 16 < 16" by simp
  then show ?thesis unfolding hex_digit_def by auto
qed

lemma ascii_hex4: "ascii (hex4 n)"
  by (simp add: hex4_def hex_digit_less)

lemma ascii_escape_char: "ascii (escape_char c)"
  by (simp add: escape_char_def Let_def ascii_hex4)

lemma ascii_concat: "(\<And>x. x \<in> set xs \<Longrightarrow> ascii x) \<Longrightarrow> ascii (concat xs)"
  by (induction xs) simp_all

lemma ascii_dumps_str: "ascii (dumps_str s)"
proof -
  have "ascii (concat (map escape_char s))"
    by (rule ascii_concat) (auto simp: ascii_escape_char)
  then show ?thesis by (simp add: dumps_str_def)
qed

lemma ascii_join: "ascii sep \<Longrightarrow> (\<And>x. x \<in> set xs \<Longrightarrow> ascii x) \<Longrightarrow> ascii (join sep xs)"
  by (induction sep xs rule: join.induct) simp_all

lemma ascii_literals:
  "ascii (U ''null'')" "ascii (U ''true'')" "ascii (U ''false'')" "ascii (U ''[]'')"
  "ascii (U ''{}'')" "ascii (U ''['')" "ascii (U '']'')" "ascii (U ''{'')" "ascii (U ''}'')"
  "ascii (U '', '')" "ascii (U '': '')" "ascii (U ''Content-Length: '')"
  by (simp_all add: U_def)

lemma ascii_dumps:
  assumes "\<And>l. ascii (float_repr env l)"
  shows "ascii (dumps env v)"
proof (induction v)
  case (JArr xs)
  then have "ascii (join (U '', '') (map (dumps env) xs))"
    by (intro ascii_join) (auto simp: ascii_literals)
  then show ?case by (simp add: ascii_literals)
next
  case (JObj kvs)
  have "ascii (join (U '', '') (map (\<lambda>(k, v). dumps_str k @ U '': '' @ dumps env v) kvs))"
  proof (intro ascii_join)
    fix x assume "x \<in> set (map (\<lambda>(k, v). dumps_str k @ U '': '' @ dumps env v) kvs)"
    then obtain k v where kv: "(k, v) \<in> set kvs" and x: "x = dumps_str k @ U '': '' @ dumps env v"
      by auto
    from kv have "ascii (dumps env v)" by (rule JObj.IH) simp
    with x show "ascii x" by (simp add: ascii_dumps_str ascii_literals)
  qed (simp add: ascii_literals)
  then show ?case by (simp add: ascii_literals)
qed (simp_all add: assms ascii_literals ascii_str_int ascii_dumps_str)

lemma encode_frame_framed:
  assumes "\<And>l. ascii (float_repr env l)"
  shows "utf8_encode (dumps env (JObj r)) = Some (map char_of (dumps env (JObj r)))"
    and "encode_frame env r = Some (framed (map char_of (dumps env (JObj r))))"
proof -
  have a: "ascii (dumps env (JObj r))" using assms by (rule ascii_dumps)
  then show "utf8_encode (dumps env (JObj r)) = Some (map char_of (dumps env (JObj r)))"
    by (rule utf8_encode_ascii)
  have "ascii (U ''Content-Length: '' @ str_nat (length (dumps env (JObj r))) @
               [0x0D, 0x0A, 0x0D, 0x0A] @ dumps env (JObj r))"
    using a by (simp add: ascii_literals ascii_str_nat del: dumps.simps)
  then show "encode_frame env r = Some (framed (map char_of (dumps env (JObj r))))"
    by (simp add: encode_frame_def Let_def utf8_encode_ascii framed_def del: dumps.simps ascii_simps)
qed

subsection \<open>Writing a response\<close>

lemma write_bytes_open:
  assumes "accepts w \<noteq> Some 0"
  shows "write_bytes bs w
         = Some (w\<lparr>stdout := stdout w @ [bs], accepts := map_option (\<lambda>k. k - 1) (accepts w)\<rparr>)"
proof (cases "accepts w")
  case None
  then have "w\<lparr>stdout := stdout w @ [bs], accepts := None\<rparr> = w\<lparr>stdout := stdout w @ [bs]\<rparr>"
    by (cases w) simp
  with None show ?thesis by (simp add: write_bytes_def)
next
  case (Some k)
  with assms obtain j where "k = Suc j" by (cases k) auto
  with Some show ?thesis by (simp add: write_bytes_def)
qed

lemma write_bytes_stdout:
  "write_bytes bs w = Some w' \<Longrightarrow> stdout w' = stdout w @ [bs]"
  by (auto simp: write_bytes_def split: option.splits nat.splits)

lemma respond_Some:
  assumes "\<And>l. ascii (float_repr env l)" and "r \<noteq> []"
  shows "respond env (Some r) w =
           (case write_bytes (framed (map char_of (dumps env (JObj r)))) w of
              None \<Rightarrow> Done PeerClosed w
            | Some w' \<Rightarrow> Next w')"
  using assms(2) encode_frame_framed(2) [OF assms(1), of r]
  by (simp add: respond_def del: dumps.simps)

lemma respond_open:
  assumes "\<And>l. ascii (float_repr env l)" and "r \<noteq> []" and "accepts w \<noteq> Some 0"
  shows "respond env (Some r) w =
           Next (w\<lparr>stdout := stdout w @ [framed (map char_of (dumps env (JObj r)))],
                  accepts := map_option (\<lambda>k. k - 1) (accepts w)\<rparr>)"
  using respond_Some [OF assms(1,2), of w] write_bytes_open [OF assms(3)]
  by (simp del: dumps.simps)

lemma respond_output:
  assumes "\<And>l. ascii (float_repr env l)"
  shows "stdout (world_of (respond env response w)) = stdout w \<or>
         (\<exists>r. stdout (world_of (respond env response w))
                = stdout w @ [framed (map char_of (dumps env (JObj r)))])"
proof (cases response)
  case None
  then show ?thesis by (simp add: respond_None world_of_def)
next
  case (Some r)
  show ?thesis
  proof (cases "r = []")
    case True
    with Some show ?thesis by (simp add: respond_def world_of_def)
  next
    case False
    show ?thesis
    proof (cases "write_bytes (framed (map char_of (dumps env (JObj r)))) w")
      case None
      with Some False respond_Some [OF assms False, of w] show ?thesis
        by (simp add: world_of_def del: dumps.simps)
    next
      case (Some w')
      with \<open>response = Some r\<close> False respond_Some [OF assms False, of w]
        write_bytes_stdout [OF Some]
      have "stdout (world_of (respond env response w))
            = stdout w @ [framed (map char_of (dumps env (JObj r)))]"
        by (simp add: world_of_def del: dumps.simps)
      then show ?thesis by blast
    qed
  qed
qed

lemma iteration_output:
  assumes "\<And>l. ascii (float_repr env l)"
  shows "stdout (world_of (iteration env w)) = stdout w \<or>
         (\<exists>r. stdout (world_of (iteration env w))
                = stdout w @ [framed (map char_of (dumps env (JObj r)))])"
proof (cases "read_message env (stdin w)")
  case EndOfInput
  then show ?thesis by (simp add: iteration_def world_of_def)
next
  case (Failed e rest)
  then show ?thesis by (simp add: iteration_def world_of_def)
next
  case (Message message rest)
  show ?thesis
  proof (cases "dispatch env message")
    case (Inl e)
    with Message show ?thesis by (simp add: iteration_def world_of_def)
  next
    case (Inr fl)
    show ?thesis
    proof (cases fl)
      case (Fall response)
      with Message Inr respond_output [OF assms, of response "w\<lparr>stdin := rest\<rparr>"]
      show ?thesis by (simp add: iteration_def del: dumps.simps)
    next
      case Continue
      with Message Inr show ?thesis by (simp add: iteration_def world_of_def)
    next
      case Break
      with Message Inr show ?thesis by (simp add: iteration_def world_of_def)
    qed
  qed
qed


lemma ascii_test_env: "ascii (float_repr test_env l)"
  by (simp add: test_env_def)

lemmas dumps_defs = framed_def result_response_def error_response_def U_def dumps_str_def
  escape_char_def str_int_def str_nat_def digits.simps py_str_def char_of_eq_iff

lemma iteration_respond:
  assumes "read_message env (stdin w) = Message message rest"
    and "dispatch env message = Inr (Fall (Some r))"
    and "r \<noteq> []"
    and "\<And>l. ascii (float_repr env l)"
    and "accepts w \<noteq> Some 0"
  shows "iteration env w =
           Next (w\<lparr>stdin := rest,
                  stdout := stdout w @ [framed (map char_of (dumps env (JObj r)))],
                  accepts := map_option (\<lambda>k. k - 1) (accepts w)\<rparr>)"
proof -
  from assms(5) have "accepts (w\<lparr>stdin := rest\<rparr>) \<noteq> Some 0" by simp
  from respond_open [OF assms(4,3) this] assms(1,2) show ?thesis
    by (simp add: iteration_def del: dumps.simps)
qed

subsection \<open>Requests\<close>




lemma example_initialized_request:
  \<open>read_message env
     (U ''Content-Length: 37'' @ crlf @ crlf @ U ''{"id":1,"method":"build/initialized"}'' @ rest)
     = Message (JObj [(U ''id'', JInt 1), (U ''method'', JStr (U ''build/initialized''))]) rest\<close>
  by (simp add: text_defs int_defs loads_defs frame_defs)

lemma example_shutdown_request:
  \<open>read_message env
     (U ''Content-Length: 34'' @ crlf @ crlf @ U ''{"id":7,"method":"build/shutdown"}'' @ rest)
     = Message (JObj [(U ''id'', JInt 7), (U ''method'', JStr (U ''build/shutdown''))]) rest\<close>
  by (simp add: text_defs int_defs loads_defs frame_defs)

lemma read_message_end: "read_message env [] = EndOfInput"
  by (simp add: read_message_def readline_def)

lemma run_end: "stdin w = [] \<Longrightarrow> run env w = (Eof, w)"
  by (simp add: run.simps [of env w] iteration_def read_message_end)

text \<open>
  Claim C3, as stated, fails: a \<^verbatim>\<open>build/initialized\<close> envelope that carries the id 1 is
  consumed without any response; the run ends at the end of input having written nothing.
\<close>

theorem initialized_request_unanswered:
  \<open>run test_env
     (fresh (U ''Content-Length: 37'' @ crlf @ crlf @ U ''{"id":1,"method":"build/initialized"}''))
   = (Eof, fresh [])\<close>
proof -
  let ?w = \<open>fresh (U ''Content-Length: 37'' @ crlf @ crlf @
                    U ''{"id":1,"method":"build/initialized"}'')\<close>
  have "dispatch test_env (JObj [(U ''id'', JInt 1), (U ''method'', JStr (U ''build/initialized''))])
        = Inr Continue"
    by (simp add: getitem_def U_def)
  with example_initialized_request [of test_env "[]"]
  have "iteration test_env ?w = Next (fresh [])"
    by (simp add: iteration_def fresh_def)
  then have "run test_env ?w = run test_env (fresh [])"
    by (simp add: run.simps [of test_env ?w])
  also have "\<dots> = (Eof, fresh [])"
    by (rule run_end) (simp add: fresh_def)
  finally show ?thesis .
qed

lemma dispatch_request:
  assumes "map_of d (U ''method'') = Some m"
    and "map_of d (U ''id'') = Some i"
    and "m \<noteq> JStr (U ''build/initialized'')"
    and "m \<noteq> JStr (U ''build/exit'')"
  shows "\<exists>r. dispatch env (JObj d) = Inr (Fall (Some r)) \<and> r \<noteq> [] \<and> map_of r (U ''id'') = Some i"
proof -
  have ids: "map_of (result_response i x) (U ''id'') = Some i"
    "map_of (error_response i y) (U ''id'') = Some i" for x y
    by (simp_all add: result_response_def error_response_def U_def)
  have ne: "result_response i x \<noteq> []" "error_response i y \<noteq> []" for x y
    by (simp_all add: result_response_def error_response_def)
  from assms show ?thesis
    by (simp add: getitem_simps with_id_simps ids ne)
qed

text \<open>
  Claim C3, amended. For every received envelope that carries an id and whose method is
  neither \<^verbatim>\<open>build/initialized\<close> nor \<^verbatim>\<open>build/exit\<close>, the server (its peer still
  reading) writes exactly one frame, a response dict whose id is the id of the request,
  and goes on with the input after the frame. An envelope with method
  \<^verbatim>\<open>build/initialized\<close> or \<^verbatim>\<open>build/exit\<close> gets no response, with or without an id:
  the pass of the loop only consumes the frame, and then goes on (\<^verbatim>\<open>build/initialized\<close>)
  or ends the loop (\<^verbatim>\<open>build/exit\<close>).
\<close>

theorem request_gets_one_response:
  assumes "read_message env (stdin w) = Message (JObj d) rest"
    and "map_of d (U ''method'') = Some m"
  shows "(m = JStr (U ''build/initialized'') \<longrightarrow> iteration env w = Next (w\<lparr>stdin := rest\<rparr>)) \<and>
         (m = JStr (U ''build/exit'') \<longrightarrow> iteration env w = Done Exited (w\<lparr>stdin := rest\<rparr>)) \<and>
         (\<forall>i. map_of d (U ''id'') = Some i \<and>
               m \<noteq> JStr (U ''build/initialized'') \<and> m \<noteq> JStr (U ''build/exit'') \<and>
               (\<forall>l. ascii (float_repr env l)) \<and> accepts w \<noteq> Some 0 \<longrightarrow>
            (\<exists>r. map_of r (U ''id'') = Some i \<and>
               iteration env w =
                 Next (w\<lparr>stdin := rest,
                        stdout := stdout w @ [framed (map char_of (dumps env (JObj r)))],
                        accepts := map_option (\<lambda>k. k - 1) (accepts w)\<rparr>)))"
proof (intro conjI impI allI)
  assume "m = JStr (U ''build/initialized'')"
  with assms(2) have "dispatch env (JObj d) = Inr Continue"
    by (simp add: getitem_simps U_def)
  with assms(1) show "iteration env w = Next (w\<lparr>stdin := rest\<rparr>)"
    by (simp add: iteration_def)
next
  assume "m = JStr (U ''build/exit'')"
  with assms(2) have "dispatch env (JObj d) = Inr Break"
    by (simp add: getitem_simps U_def)
  with assms(1) show "iteration env w = Done Exited (w\<lparr>stdin := rest\<rparr>)"
    by (simp add: iteration_def)
next
  fix i
  assume a: "map_of d (U ''id'') = Some i \<and>
             m \<noteq> JStr (U ''build/initialized'') \<and> m \<noteq> JStr (U ''build/exit'') \<and>
             (\<forall>l. ascii (float_repr env l)) \<and> accepts w \<noteq> Some 0"
  then have i: "map_of d (U ''id'') = Some i"
    and n: "m \<noteq> JStr (U ''build/initialized'')" "m \<noteq> JStr (U ''build/exit'')"
    and asc: "\<And>l. ascii (float_repr env l)" and op: "accepts w \<noteq> Some 0"
    by simp_all
  from dispatch_request [OF assms(2) i n, of env]
  obtain r where r: "dispatch env (JObj d) = Inr (Fall (Some r))" "r \<noteq> []"
    "map_of r (U ''id'') = Some i"
    by blast
  from iteration_respond [OF assms(1) r(1,2) asc op] r(3)
  show "\<exists>r. map_of r (U ''id'') = Some i \<and>
          iteration env w =
            Next (w\<lparr>stdin := rest,
                   stdout := stdout w @ [framed (map char_of (dumps env (JObj r)))],
                   accepts := map_option (\<lambda>k. k - 1) (accepts w)\<rparr>)"
    by blast
qed

theorem request_gets_one_response_witness:
  \<open>(\<exists>r. map_of r (U ''id'') = Some (JInt 7) \<and>
      iteration test_env
        (fresh (U ''Content-Length: 34'' @ crlf @ crlf @ U ''{"id":7,"method":"build/shutdown"}''))
      = Next \<lparr>stdin = [],
              stdout = [framed (map char_of (dumps test_env (JObj r)))],
              accepts = None\<rparr>) \<and>
   iteration test_env
     (fresh (U ''Content-Length: 37'' @ crlf @ crlf @ U ''{"id":1,"method":"build/initialized"}''))
   = Next (fresh []) \<and>
   iteration test_env
     (fresh (U ''Content-Length: 23'' @ crlf @ crlf @ U ''{"method":"build/exit"}''))
   = Done Exited (fresh [])\<close>
proof -
  let ?w = \<open>fresh (U ''Content-Length: 34'' @ crlf @ crlf @ U ''{"id":7,"method":"build/shutdown"}'')\<close>
  let ?d = "[(U ''id'', JInt 7), (U ''method'', JStr (U ''build/shutdown''))]"
  have r: "read_message test_env (stdin ?w) = Message (JObj ?d) []"
    using example_shutdown_request [of test_env "[]"] by (simp add: fresh_def)
  have m: "map_of ?d (U ''method'') = Some (JStr (U ''build/shutdown''))"
    by (simp add: U_def)
  have c: "map_of ?d (U ''id'') = Some (JInt 7) \<and>
           JStr (U ''build/shutdown'') \<noteq> JStr (U ''build/initialized'') \<and>
           JStr (U ''build/shutdown'') \<noteq> JStr (U ''build/exit'') \<and>
           (\<forall>l. ascii (float_repr test_env l)) \<and> accepts ?w \<noteq> Some 0"
    by (simp add: U_def ascii_test_env fresh_def)
  from request_gets_one_response [OF r m] c
  have one: \<open>\<exists>r. map_of r (U ''id'') = Some (JInt 7) \<and>
      iteration test_env ?w
      = Next \<lparr>stdin = [],
              stdout = [framed (map char_of (dumps test_env (JObj r)))],
              accepts = None\<rparr>\<close>
    by (simp add: fresh_def del: dumps.simps)
  let ?w2 = \<open>fresh (U ''Content-Length: 37'' @ crlf @ crlf @
                     U ''{"id":1,"method":"build/initialized"}'')\<close>
  let ?d2 = "[(U ''id'', JInt 1), (U ''method'', JStr (U ''build/initialized''))]"
  have r2: "read_message test_env (stdin ?w2) = Message (JObj ?d2) []"
    using example_initialized_request [of test_env "[]"] by (simp add: fresh_def)
  have m2: "map_of ?d2 (U ''method'') = Some (JStr (U ''build/initialized''))"
    by (simp add: U_def)
  from request_gets_one_response [OF r2 m2]
  have two: "iteration test_env ?w2 = Next (fresh [])"
    by (simp add: fresh_def)
  let ?w3 = \<open>fresh (U ''Content-Length: 23'' @ crlf @ crlf @ U ''{"method":"build/exit"}'')\<close>
  let ?d3 = "[(U ''method'', JStr (U ''build/exit''))]"
  have r3: "read_message test_env (stdin ?w3) = Message (JObj ?d3) []"
    using example_exit [of test_env "[]"] by (simp add: fresh_def)
  have m3: "map_of ?d3 (U ''method'') = Some (JStr (U ''build/exit''))"
    by simp
  from request_gets_one_response [OF r3 m3]
  have three: "iteration test_env ?w3 = Done Exited (fresh [])"
    by (simp add: fresh_def)
  from one two three show ?thesis by blast
qed

subsection \<open>Frames written\<close>

text \<open>
  Claim C6. Every frame the server writes declares a Content-Length equal to the number of
  bytes of the UTF-8 encoded body that follows it: whatever a run adds to standard output
  is a sequence of frames, each the well-formed frame around the UTF-8 encoding of a
  serialised response dict. (\<^verbatim>\<open>len(responseStr)\<close> counts code points, but the serialised
  text is ASCII, so code points and bytes coincide; the float formatter of the interpreter
  is taken to print ASCII.)
\<close>

theorem content_length_exact:
  assumes "\<And>l. ascii (float_repr env l)"
    and "run env w = (oc, w')"
  shows "\<exists>frames. stdout w' = stdout w @ frames \<and>
           (\<forall>f \<in> set frames. \<exists>r body.
              utf8_encode (dumps env (JObj r)) = Some body \<and> f = framed body)"
  using assms
proof (induction env w rule: run.induct)
  case (1 env w)
  note ascii = "1.prems"(1)
  let ?good = "\<lambda>f. \<exists>r body. utf8_encode (dumps env (JObj r)) = Some body \<and> f = framed body"
  have one: "?good (framed (map char_of (dumps env (JObj r))))" for r
    using encode_frame_framed(1) [OF ascii, of r] by blast
  from iteration_output [OF ascii, of w]
  obtain fs where fs: "stdout (world_of (iteration env w)) = stdout w @ fs"
    and good: "\<forall>f \<in> set fs. ?good f"
  proof
    assume "stdout (world_of (iteration env w)) = stdout w"
    then show ?thesis using that [of "[]"] by (simp del: dumps.simps)
  next
    assume "\<exists>r. stdout (world_of (iteration env w))
                 = stdout w @ [framed (map char_of (dumps env (JObj r)))]"
    then obtain r where "stdout (world_of (iteration env w))
                 = stdout w @ [framed (map char_of (dumps env (JObj r)))]" ..
    then show ?thesis using that [of "[framed (map char_of (dumps env (JObj r)))]"] one [of r]
      by (simp del: dumps.simps)
  qed
  show ?case
  proof (cases "iteration env w")
    case (Done oc1 w1)
    with "1.prems"(2) have "w' = w1" by (simp add: run.simps [of env w])
    with Done fs have "stdout w' = stdout w @ fs" by (simp add: world_of_def)
    with good show ?thesis by blast
  next
    case (Next w1)
    with "1.prems"(2) have "run env w1 = (oc, w')" by (simp add: run.simps [of env w])
    from "1.IH" [OF Next ascii this]
    obtain gs where gs: "stdout w' = stdout w1 @ gs" and ggood: "\<forall>f \<in> set gs. ?good f"
      by blast
    from Next fs have "stdout w1 = stdout w @ fs" by (simp add: world_of_def)
    with gs have "stdout w' = stdout w @ (fs @ gs)" by simp
    moreover from good ggood have "\<forall>f \<in> set (fs @ gs). ?good f"
      by (auto simp del: dumps.simps)
    ultimately show ?thesis by blast
  qed
qed

theorem content_length_exact_witness:
  \<open>run test_env
     (fresh (U ''Content-Length: 34'' @ crlf @ crlf @ U ''{"id":7,"method":"build/shutdown"}''))
   = (Eof, \<lparr>stdin = [],
            stdout = [''Content-Length: 43'' @ [CHR 0x0D, CHR 0x0A, CHR 0x0D, CHR 0x0A] @
                      ''{"jsonrpc": "2.0", "id": 7, "result": null}''],
            accepts = None\<rparr>) \<and>
   (\<exists>frames.
      [''Content-Length: 43'' @ [CHR 0x0D, CHR 0x0A, CHR 0x0D, CHR 0x0A] @
       ''{"jsonrpc": "2.0", "id": 7, "result": null}''] = [] @ frames \<and>
      (\<forall>f \<in> set frames. \<exists>r body.
         utf8_encode (dumps test_env (JObj r)) = Some body \<and> f = framed body))\<close>
proof -
  let ?w = \<open>fresh (U ''Content-Length: 34'' @ crlf @ crlf @ U ''{"id":7,"method":"build/shutdown"}'')\<close>
  let ?d = "[(U ''id'', JInt 7), (U ''method'', JStr (U ''build/shutdown''))]"
  let ?w1 = \<open>\<lparr>stdin = [],
            stdout = [''Content-Length: 43'' @ [CHR 0x0D, CHR 0x0A, CHR 0x0D, CHR 0x0A] @
                      ''{"jsonrpc": "2.0", "id": 7, "result": null}''],
            accepts = None\<rparr>\<close>
  have r: "read_message test_env (stdin ?w) = Message (JObj ?d) []"
    using example_shutdown_request [of test_env "[]"] by (simp add: fresh_def)
  have d: "dispatch test_env (JObj ?d) = Inr (Fall (Some (result_response (JInt 7) JNull)))"
    by (simp add: getitem_def with_id_def U_def)
  have o: "accepts ?w \<noteq> Some 0" by (simp add: fresh_def)
  have "iteration test_env ?w = Next ?w1"
    using iteration_respond [OF r d _ ascii_test_env o]
    by (simp add: fresh_def dumps_defs)
  then have "run test_env ?w = run test_env ?w1"
    by (simp add: run.simps [of test_env ?w])
  also have "\<dots> = (Eof, ?w1)" by (rule run_end) simp
  finally have run: "run test_env ?w = (Eof, ?w1)" .
  from content_length_exact [OF ascii_test_env run] run show ?thesis
    by (simp add: fresh_def del: dumps.simps)
qed

subsection \<open>The header line\<close>








subsection \<open>The body\<close>

lemma example_two_frames:
  \<open>read_message env
     (U ''Content-Length: 15'' @ crlf @ crlf @ U ''{"method":"'' @ [0xE9] @ U ''"}'' @
      U ''Content-Length: 23'' @ crlf @ crlf @ U ''{"method":"build/exit"}'')
   = Failed JSONDecodeError (U ''ontent-Length: 23'' @ crlf @ crlf @ U ''{"method":"build/exit"}'')\<close>
  by (simp add: text_defs int_defs loads_defs frame_defs)

text \<open>
  Claim C8 and the code part ways on a body with a character beyond ASCII. The first
  frame below declares 15, which is the number of bytes of its body in UTF-8; the body
  has 14 characters. \<^verbatim>\<open>sys.stdin.read(15)\<close> reads 15 characters from the text stream,
  so it takes the first character of the next header with the body, and
  \<^verbatim>\<open>json.loads\<close> fails on the text it is given: the run ends in \<^verbatim>\<open>JSONDecodeError\<close>
  although both frames are well-formed.
\<close>

theorem body_length_counts_characters:
  \<open>map_option length (utf8_encode (U ''{"method":"'' @ [0xE9] @ U ''"}'')) = Some 15 \<and>
   length (U ''{"method":"'' @ [0xE9] @ U ''"}'') = 14 \<and>
   run test_env
     (fresh (U ''Content-Length: 15'' @ crlf @ crlf @ U ''{"method":"'' @ [0xE9] @ U ''"}'' @
             U ''Content-Length: 23'' @ crlf @ crlf @ U ''{"method":"build/exit"}''))
   = (Fatal JSONDecodeError,
      fresh (U ''ontent-Length: 23'' @ crlf @ crlf @ U ''{"method":"build/exit"}''))\<close>
proof -
  have b: \<open>map_option length (utf8_encode (U ''{"method":"'' @ [0xE9] @ U ''"}'')) = Some 15\<close>
    by (simp add: U_def utf8_char_def is_high_def is_low_def)
  have c: \<open>length (U ''{"method":"'' @ [0xE9] @ U ''"}'') = 14\<close>
    by (simp add: U_def)
  have \<open>iteration test_env
     (fresh (U ''Content-Length: 15'' @ crlf @ crlf @ U ''{"method":"'' @ [0xE9] @ U ''"}'' @
             U ''Content-Length: 23'' @ crlf @ crlf @ U ''{"method":"build/exit"}''))
   = Done (Fatal JSONDecodeError)
      (fresh (U ''ontent-Length: 23'' @ crlf @ crlf @ U ''{"method":"build/exit"}''))\<close>
    using example_two_frames [of test_env] by (simp add: iteration_def fresh_def)
  then have \<open>run test_env
     (fresh (U ''Content-Length: 15'' @ crlf @ crlf @ U ''{"method":"'' @ [0xE9] @ U ''"}'' @
             U ''Content-Length: 23'' @ crlf @ crlf @ U ''{"method":"build/exit"}''))
   = (Fatal JSONDecodeError,
      fresh (U ''ontent-Length: 23'' @ crlf @ crlf @ U ''{"method":"build/exit"}''))\<close>
    by (simp add: run.simps)
  with b c show ?thesis by blast
qed

subsection \<open>Decimal numbers read back\<close>









subsection \<open>Escapes read back\<close>

lemma hexval_hex_digit:
  assumes "d < 16"
  shows "hexval (hex_digit d) = Some d"
proof (cases "d < 10")
  case True
  then show ?thesis by (simp add: hexval_def hex_digit_def)
next
  case False
  with assms show ?thesis by (simp add: hexval_def hex_digit_def)
qed

lemma hex4_value:
  fixes n :: nat
  assumes "n < 65536"
  shows "((n div 4096 mod 16 * 16 + n div 256 mod 16) * 16 + n div 16 mod 16) * 16 + n mod 16 = n"
proof -
  define q1 where "q1 = n div 16"
  define q2 where "q2 = q1 div 16"
  define q3 where "q3 = q2 div 16"
  have d2: "n div 256 = q2"
    unfolding q1_def q2_def using div_mult2_eq [of n 16 16] by simp
  have d3: "n div 4096 = q3"
    unfolding q3_def d2 [symmetric] using div_mult2_eq [of n 256 16] by simp
  have e1: "n = q1 * 16 + n mod 16" unfolding q1_def by simp
  have e2: "q1 = q2 * 16 + q1 mod 16" unfolding q2_def by simp
  have e3: "q2 = q3 * 16 + q2 mod 16" unfolding q3_def by simp
  from assms e1 have "q1 < 4096" by linarith
  with e2 have "q2 < 256" by linarith
  with e3 have "q3 < 16" by linarith
  then have m3: "q3 mod 16 = q3" by simp
  have "((q3 * 16 + q2 mod 16) * 16 + q1 mod 16) * 16 + n mod 16 = n"
    using e1 e2 e3 by presburger
  then show ?thesis unfolding d2 d3 q1_def [symmetric] m3 .
qed

lemma top_nibble:
  fixes n :: nat
  assumes "n < 65536"
  shows "n div 4096 mod 16 = n div 4096"
proof -
  have "n = n div 4096 * 4096 + n mod 4096" by simp
  with assms have "n div 4096 < 16" by linarith
  then show ?thesis by simp
qed

lemma unhex4_hex4:
  assumes "n < 65536"
  shows "unhex4 (hex4 n @ r) = Some (n, r)"
  using assms hex4_value [OF assms] top_nibble [OF assms]
  by (simp add: unhex4_def hex4_def hexval_hex_digit)

lemma scan_u_lone:
  assumes "c < 65536"
    and "\<not> is_high c \<or> \<not> startswith tl0 [0x5C, 0x75] \<or>
         (\<exists>l r. unhex4 (drop 2 tl0) = Some (l, r) \<and> \<not> is_low l)"
  shows "scan_u (hex4 c @ tl0) = Some (c, tl0)"
proof (cases "is_high c \<and> startswith tl0 [0x5C, 0x75]")
  case False
  then show ?thesis by (auto simp: scan_u_def unhex4_hex4 [OF assms(1)])
next
  case True
  with assms(2) obtain l r where "unhex4 (drop 2 tl0) = Some (l, r)" "\<not> is_low l"
    by blast
  with True show ?thesis by (simp add: scan_u_def unhex4_hex4 [OF assms(1)])
qed

lemma surrogate_halves:
  fixes c :: nat
  assumes "0x10000 \<le> c" and "c < 0x110000"
  defines "v \<equiv> c - 0x10000"
  shows "0xD800 + v div 1024 mod 1024 < 65536"
    and "0xDC00 + v mod 1024 < 65536"
    and "is_high (0xD800 + v div 1024 mod 1024)"
    and "is_low (0xDC00 + v mod 1024)"
    and "\<not> is_low (0xD800 + v div 1024 mod 1024)"
    and "join_surrogates (0xD800 + v div 1024 mod 1024) (0xDC00 + v mod 1024) = c"
proof -
  have m: "v div 1024 mod 1024 < 1024" "v mod 1024 < 1024" by simp_all
  from assms have "v < 0x100000" by simp
  moreover have "v = v div 1024 * 1024 + v mod 1024" by simp
  ultimately have "v div 1024 < 1024" by linarith
  then have e: "v div 1024 mod 1024 = v div 1024" by simp
  from m show "0xD800 + v div 1024 mod 1024 < 65536" by linarith
  from m show "0xDC00 + v mod 1024 < 65536" by linarith
  from m show "is_high (0xD800 + v div 1024 mod 1024)" unfolding is_high_def by linarith
  from m show "is_low (0xDC00 + v mod 1024)" unfolding is_low_def by linarith
  from m show "\<not> is_low (0xD800 + v div 1024 mod 1024)" unfolding is_low_def by linarith
  have "join_surrogates (0xD800 + v div 1024 mod 1024) (0xDC00 + v mod 1024) = 0x10000 + v"
    unfolding e by (simp add: join_surrogates_def)
  also from assms(1) have "0x10000 + v = c" by (simp add: v_def)
  finally show "join_surrogates (0xD800 + v div 1024 mod 1024) (0xDC00 + v mod 1024) = c" .
qed

lemma scan_u_pair:
  fixes c :: nat
  assumes "0x10000 \<le> c" and "c < 0x110000"
  shows "scan_u (hex4 (0xD800 + (c - 0x10000) div 1024 mod 1024) @ [0x5C, 0x75] @
                 hex4 (0xDC00 + (c - 0x10000) mod 1024) @ tl0) = Some (c, tl0)"
  using surrogate_halves [OF assms]
  by (simp add: scan_u_def unhex4_hex4 startswith_def)

lemma escape_char_simple:
  assumes "simple_escape c"
  shows "\<exists>e. escape_char c = [0x5C, e] \<and> e \<noteq> 0x75 \<and> unescape e = Some c"
  using assms unfolding simple_escape_def
  by (auto simp: escape_char_def unescape_def)

lemma escape_char_printable: "printable c \<Longrightarrow> escape_char c = [c]"
  by (auto simp: escape_char_def printable_def)

lemma escape_char_bmp:
  assumes "\<not> simple_escape c" and "\<not> printable c" and "c < 0x10000"
  shows "escape_char c = [0x5C, 0x75] @ hex4 c"
  using assms unfolding simple_escape_def printable_def escape_char_def
  by auto

lemma escape_char_astral:
  assumes "0x10000 \<le> c"
  shows "escape_char c = [0x5C, 0x75] @ hex4 (0xD800 + (c - 0x10000) div 1024 mod 1024) @
                         [0x5C, 0x75] @ hex4 (0xDC00 + (c - 0x10000) mod 1024)"
  using assms unfolding escape_char_def Let_def
  by auto

lemma escape_shapes:
  assumes "c < 0x110000"
  obtains (simple) "simple_escape c"
    | (plain) "\<not> simple_escape c" "printable c"
    | (bmp) "\<not> simple_escape c" "\<not> printable c" "c < 0x10000"
    | (astral) "0x10000 \<le> c"
  by (cases "c < 0x10000") auto

lemma escape_head:
  assumes "b < 0x110000"
  shows "\<not> startswith (escape_char b @ t) [0x5C, 0x75] \<or>
         (\<exists>l r. unhex4 (drop 2 (escape_char b @ t)) = Some (l, r) \<and> (is_low l \<longrightarrow> is_low b))"
  using assms
proof (cases b rule: escape_shapes)
  case simple
  from escape_char_simple [OF this] obtain e where "escape_char b = [0x5C, e]" "e \<noteq> 0x75"
    by blast
  then show ?thesis by (simp add: startswith_def)
next
  case plain
  then have "escape_char b = [b]" "b \<noteq> 0x5C"
    by (simp_all add: escape_char_printable printable_def)
  then show ?thesis by (simp add: startswith_def)
next
  case bmp
  then have "escape_char b = [0x5C, 0x75] @ hex4 b" by (rule escape_char_bmp)
  with bmp(3) show ?thesis by (simp add: unhex4_hex4)
next
  case astral
  note h = surrogate_halves [OF astral assms]
  from astral have "escape_char b @ t =
      [0x5C, 0x75] @ hex4 (0xD800 + (b - 0x10000) div 1024 mod 1024) @
      ([0x5C, 0x75] @ hex4 (0xDC00 + (b - 0x10000) mod 1024) @ t)"
    by (simp add: escape_char_astral)
  then have "unhex4 (drop 2 (escape_char b @ t)) =
      Some (0xD800 + (b - 0x10000) div 1024 mod 1024,
            [0x5C, 0x75] @ hex4 (0xDC00 + (b - 0x10000) mod 1024) @ t)"
    using unhex4_hex4 [OF h(1)] by simp
  with h(5) show ?thesis by blast
qed

lemma scanstring_step:
  assumes "c < 0x110000"
    and "\<not> is_high c \<or> \<not> startswith tl0 [0x5C, 0x75] \<or>
         (\<exists>l r. unhex4 (drop 2 tl0) = Some (l, r) \<and> \<not> is_low l)"
    and "scanstring tl0 = Some (cs, rest)"
  shows "scanstring (escape_char c @ tl0) = Some (c # cs, rest)"
  using assms(1)
proof (cases c rule: escape_shapes)
  case simple
  from escape_char_simple [OF this] obtain e where
    "escape_char c = [0x5C, e]" "e \<noteq> 0x75" "unescape e = Some c"
    by blast
  with assms(3) show ?thesis by (simp add: scan_escape_def emit_def)
next
  case plain
  then have "escape_char c = [c]" "c \<noteq> 0x5C" "c \<noteq> 0x22" "\<not> c < 0x20"
    by (simp_all add: escape_char_printable printable_def)
  with assms(3) show ?thesis by (simp add: emit_def)
next
  case bmp
  then have "escape_char c = [0x5C, 0x75] @ hex4 c" by (rule escape_char_bmp)
  moreover from bmp(3) assms(2) have "scan_u (hex4 c @ tl0) = Some (c, tl0)"
    by (intro scan_u_lone) simp_all
  ultimately show ?thesis using assms(3) by (simp add: scan_escape_def emit_def)
next
  case astral
  from scan_u_pair [OF astral assms(1), of tl0] escape_char_astral [OF astral] assms(3)
  show ?thesis by (simp add: scan_escape_def emit_def)
qed

lemma scanstring_escaped:
  assumes "wf_str s"
  shows "scanstring (concat (map escape_char s) @ 0x22 # rest) = Some (s, rest)"
  using assms
proof (induction s rule: wf_str.induct)
  case 1
  show ?case by simp
next
  case (2 c)
  have "scanstring (escape_char c @ 0x22 # rest) = Some ([c], rest)"
    using 2 by (intro scanstring_step) (simp_all add: startswith_def)
  then show ?case by simp
next
  case (3 c b s)
  let ?t = "concat (map escape_char s) @ 0x22 # rest"
  from 3 have ih: "scanstring (escape_char b @ ?t) = Some (b # s, rest)" by simp
  from "3.prems" have c: "c < 0x110000" and b: "b < 0x110000"
    and nl: "\<not> (is_high c \<and> is_low b)"
    by (cases s; simp)+
  from escape_head [OF b, of ?t] nl
  have "\<not> is_high c \<or> \<not> startswith (escape_char b @ ?t) [0x5C, 0x75] \<or>
        (\<exists>l r. unhex4 (drop 2 (escape_char b @ ?t)) = Some (l, r) \<and> \<not> is_low l)"
    by blast
  from scanstring_step [OF c this ih] show ?case by simp
qed

lemma scanstring_dumps_str:
  "wf_str s \<Longrightarrow> scanstring (tl (dumps_str s) @ rest) = Some (s, rest)"
  using scanstring_escaped [of s rest] by (simp add: dumps_str_def)

subsection \<open>Numbers read back\<close>








subsection \<open>Values read back\<close>










lemma delim_simps [simp]: "delim (0x2C # r)" "delim (0x5D # r)" "delim (0x7D # r)" "delim []"
  by (simp_all add: delim_def)














subsection \<open>A frame read back\<close>












end
